theory Spec2Isabelle
  imports Main "HOL-Library.Multiset"
begin

section \<open>The outline tree of the editor\<close>

text \<open>
  The type \<^verbatim>\<open>OutlineNode\<close> of \<^verbatim>\<open>types.ts\<close>:
  \<^verbatim>\<open>{ id: string; title: string; level: number; children: OutlineNode[] }\<close>.
  Strings are lists of bytes (UTF-8); only their equality is ever used by the editor.
  The field \<^verbatim>\<open>level\<close> is a JavaScript number, a double. The outline that the
  editor receives carries integers there, and the editor only copies a level or adds
  one to it, so a level is always a finite double with an integer value: it is
  modelled by this value, and the addition by the addition of doubles below.
  The selector of \<^verbatim>\<open>id\<close> is called \<open>id_of\<close>, since \<open>id\<close> is the identity of HOL.
\<close>

datatype OutlineNode =
  OutlineNode (id_of: string) (title: string) (level: int) (children: "OutlineNode list")

type_synonym forest = "OutlineNode list"

text \<open>
  \<^verbatim>\<open>Partial<OutlineNode>\<close>, the second argument of \<^verbatim>\<open>handleUpdateNode\<close>: every field may
  be absent. The object spread \<^verbatim>\<open>{ ...node, ...updates }\<close> takes a field from
  \<^verbatim>\<open>updates\<close> when it is present and from \<^verbatim>\<open>node\<close> otherwise.
\<close>

record updates =
  upd_id :: "string option"
  upd_title :: "string option"
  upd_level :: "int option"
  upd_children :: "OutlineNode list option"

definition spread :: "OutlineNode \<Rightarrow> updates \<Rightarrow> OutlineNode" where
  "spread node u =
     OutlineNode
       (case upd_id u of None \<Rightarrow> id_of node | Some i \<Rightarrow> i)
       (case upd_title u of None \<Rightarrow> title node | Some t \<Rightarrow> t)
       (case upd_level u of None \<Rightarrow> level node | Some l \<Rightarrow> l)
       (case upd_children u of None \<Rightarrow> children node | Some cs \<Rightarrow> cs)"

text \<open>
  The two default titles, as UTF-8 bytes: the title of a new child or sibling
  (three CJK characters) and the title of a new top-level node (five CJK characters).
\<close>

definition newTitle :: string where
  "newTitle = [CHR 0xE6, CHR 0x96, CHR 0xB0, CHR 0xE6, CHR 0xA0, CHR 0x87,
               CHR 0xE9, CHR 0xA2, CHR 0x98]"

definition newTopTitle :: string where
  "newTopTitle = [CHR 0xE6, CHR 0x96, CHR 0xB0, CHR 0xE9, CHR 0xA1, CHR 0xB6,
                  CHR 0xE7, CHR 0xBA, CHR 0xA7, CHR 0xE6, CHR 0xA0, CHR 0x87,
                  CHR 0xE9, CHR 0xA2, CHR 0x98]"

section \<open>The addition of numbers\<close>

text \<open>
  \<^verbatim>\<open>a + b\<close> on two doubles is the exact sum rounded to the nearest double, a tie
  going to the double with the even significand. A double has a significand of 53
  bits: every integer of magnitude up to \<open>2 ^ 53\<close> is a double, and a larger integer
  with \<open>53 + e\<close> bits is rounded to a multiple of \<open>2 ^ e\<close>. \<open>bitlen\<close> is the number
  of bits of a natural number. (The sum of a finite double and 1 never exceeds the
  range of the doubles.)
\<close>

fun bitlen :: "nat \<Rightarrow> nat" where
  "bitlen n = (if n = 0 then 0 else Suc (bitlen (n div 2)))"

definition round_double :: "int \<Rightarrow> int" where
  "round_double x =
     (if \<bar>x\<bar> \<le> 2 ^ 53 then x
      else (let e = bitlen (nat \<bar>x\<bar>) - 53;
                u = 2 ^ e;
                q = \<bar>x\<bar> div u;
                r = \<bar>x\<bar> mod u;
                m = (if 2 * r < u \<or> (2 * r = u \<and> even q) then q else q + 1)
            in sgn x * (m * u)))"

definition js_add :: "int \<Rightarrow> int \<Rightarrow> int" where
  "js_add a b = round_double (a + b)"

section \<open>The operations of \<^verbatim>\<open>OutlineEditor\<close>\<close>

subsection \<open>\<^verbatim>\<open>handleUpdateNode\<close>\<close>

text \<open>
  \<^verbatim>\<open>updateRecursive\<close> maps over the list; a node whose id matches is replaced by the
  spread and its children are not visited; another node is rebuilt with its children
  updated when it has any, and returned as it is otherwise. The callback of
  \<^verbatim>\<open>map\<close> is \<open>updateRecursive_node\<close>.
\<close>

fun updateRecursive :: "string \<Rightarrow> updates \<Rightarrow> OutlineNode list \<Rightarrow> OutlineNode list"
  and updateRecursive_node :: "string \<Rightarrow> updates \<Rightarrow> OutlineNode \<Rightarrow> OutlineNode"
where
  "updateRecursive ident u [] = []"
| "updateRecursive ident u (node # rest) =
     updateRecursive_node ident u node # updateRecursive ident u rest"
| "updateRecursive_node ident u (OutlineNode i t l cs) =
     (if i = ident then spread (OutlineNode i t l cs) u
      else if length cs > 0 then OutlineNode i t l (updateRecursive ident u cs)
      else OutlineNode i t l cs)"

definition handleUpdateNode :: "string \<Rightarrow> updates \<Rightarrow> forest \<Rightarrow> forest" where
  "handleUpdateNode ident u nodes = updateRecursive ident u nodes"

text \<open>
  The only caller, the title input of \<^verbatim>\<open>OutlineNodeItem\<close>:
  \<^verbatim>\<open>onUpdate(node.id, { title: e.target.value })\<close>.
\<close>

definition rename :: "string \<Rightarrow> string \<Rightarrow> forest \<Rightarrow> forest" where
  "rename ident newT nodes =
     handleUpdateNode ident
       \<lparr>upd_id = None, upd_title = Some newT, upd_level = None, upd_children = None\<rparr> nodes"

subsection \<open>\<^verbatim>\<open>handleDeleteNode\<close>\<close>

text \<open>
  \<^verbatim>\<open>deleteRecursive\<close> filters out the nodes whose id matches and rebuilds every
  other node with its children filtered in the same way.
\<close>

fun deleteRecursive :: "string \<Rightarrow> OutlineNode list \<Rightarrow> OutlineNode list"
  and deleteRecursive_node :: "string \<Rightarrow> OutlineNode \<Rightarrow> OutlineNode"
where
  "deleteRecursive ident [] = []"
| "deleteRecursive ident (node # rest) =
     (if id_of node \<noteq> ident
      then deleteRecursive_node ident node # deleteRecursive ident rest
      else deleteRecursive ident rest)"
| "deleteRecursive_node ident (OutlineNode i t l cs) =
     OutlineNode i t l (deleteRecursive ident cs)"

definition handleDeleteNode :: "string \<Rightarrow> forest \<Rightarrow> forest" where
  "handleDeleteNode ident nodes = deleteRecursive ident nodes"

subsection \<open>The random source\<close>

text \<open>
  A new node gets the id \<^verbatim>\<open>Math.random().toString(36).substr(2, 9)\<close>. The generator
  is state outside the editor: it is modelled by the sequence \<open>draws\<close> of the strings
  that this expression yields, one after the other, and by the number \<open>k\<close> of values
  drawn so far, which every operation takes and returns. Nothing is assumed about the
  strings drawn.
\<close>

type_synonym draws = "nat \<Rightarrow> string"

subsection \<open>\<^verbatim>\<open>handleAddChild\<close>\<close>

text \<open>
  \<^verbatim>\<open>addRecursive\<close> maps over the list from left to right; a node whose id matches
  gets a new last child with a drawn id, the title \<open>newTitle\<close>, the level
  \<^verbatim>\<open>node.level + 1\<close> (a sum of doubles) and no children, and its own children are
  not visited; another node is rebuilt with its children processed when it has any.
\<close>

fun addRecursive :: "draws \<Rightarrow> string \<Rightarrow> OutlineNode list \<Rightarrow> nat \<Rightarrow> OutlineNode list \<times> nat"
  and addRecursive_node :: "draws \<Rightarrow> string \<Rightarrow> OutlineNode \<Rightarrow> nat \<Rightarrow> OutlineNode \<times> nat"
where
  "addRecursive draws parentId [] k = ([], k)"
| "addRecursive draws parentId (node # rest) k =
     (case addRecursive_node draws parentId node k of
        (node', k') \<Rightarrow>
          (case addRecursive draws parentId rest k' of
             (rest', k'') \<Rightarrow> (node' # rest', k'')))"
| "addRecursive_node draws parentId (OutlineNode i t l cs) k =
     (if i = parentId
      then (OutlineNode i t l (cs @ [OutlineNode (draws k) newTitle (js_add l 1) []]), Suc k)
      else if length cs > 0
      then (case addRecursive draws parentId cs k of
              (cs', k') \<Rightarrow> (OutlineNode i t l cs', k'))
      else (OutlineNode i t l cs, k))"

definition handleAddChild :: "draws \<Rightarrow> string \<Rightarrow> forest \<Rightarrow> nat \<Rightarrow> forest \<times> nat" where
  "handleAddChild draws parentId nodes k = addRecursive draws parentId nodes k"

subsection \<open>\<^verbatim>\<open>handleAddSibling\<close>\<close>

text \<open>
  \<^verbatim>\<open>findIndex\<close> of JavaScript: the index of the first element that satisfies the
  predicate, or \<open>-1\<close>.
\<close>

fun findIndex :: "('a \<Rightarrow> bool) \<Rightarrow> 'a list \<Rightarrow> int" where
  "findIndex p [] = -1"
| "findIndex p (x # xs) =
     (if p x then 0 else (let r = findIndex p xs in if r = -1 then -1 else r + 1))"

text \<open>
  \<^verbatim>\<open>newNodes.splice(index + 1, 0, sibling)\<close> on a copy of the list, for an index
  inside the list.
\<close>

definition splice_in :: "nat \<Rightarrow> 'a \<Rightarrow> 'a list \<Rightarrow> 'a list" where
  "splice_in start x xs = take start xs @ x # drop start xs"

text \<open>
  \<^verbatim>\<open>addSiblingRecursive\<close> looks for the id in the current list first. When it is
  there, the new node (drawn id, title \<open>newTitle\<close>, the level of the node found, no
  children) is spliced in after the first node with this id and nothing below is
  visited. Otherwise every node is rebuilt with its children processed, from left to
  right: \<open>addSibling_map\<close> is this \<^verbatim>\<open>map\<close>.
\<close>

function addSiblingRecursive :: "draws \<Rightarrow> string \<Rightarrow> OutlineNode list \<Rightarrow> nat \<Rightarrow> OutlineNode list \<times> nat"
  and addSibling_map :: "draws \<Rightarrow> string \<Rightarrow> OutlineNode list \<Rightarrow> nat \<Rightarrow> OutlineNode list \<times> nat"
where
  "addSiblingRecursive draws ident currentNodes k =
     (let index = findIndex (\<lambda>n. id_of n = ident) currentNodes in
      if index \<noteq> -1
      then (let sibling = OutlineNode (draws k) newTitle (level (currentNodes ! nat index)) []
            in (splice_in (nat (index + 1)) sibling currentNodes, Suc k))
      else addSibling_map draws ident currentNodes k)"
| "addSibling_map draws ident [] k = ([], k)"
| "addSibling_map draws ident (OutlineNode i t l cs # rest) k =
     (case addSiblingRecursive draws ident cs k of
        (cs', k') \<Rightarrow>
          (case addSibling_map draws ident rest k' of
             (rest', k'') \<Rightarrow> (OutlineNode i t l cs' # rest', k'')))"
  by pat_completeness auto
termination
  by (relation "measure (\<lambda>x. case x of
         Inl (_, _, ns, _) \<Rightarrow> 2 * size_list size ns + 1
       | Inr (_, _, ns, _) \<Rightarrow> 2 * size_list size ns)") auto

definition handleAddSibling :: "draws \<Rightarrow> string \<Rightarrow> forest \<Rightarrow> nat \<Rightarrow> forest \<times> nat" where
  "handleAddSibling draws ident nodes k = addSiblingRecursive draws ident nodes k"

subsection \<open>The button that adds a top-level title\<close>

definition appendTopLevel :: "draws \<Rightarrow> forest \<Rightarrow> nat \<Rightarrow> forest \<times> nat" where
  "appendTopLevel draws nodes k =
     (nodes @ [OutlineNode (draws k) newTopTitle 1 []], Suc k)"

subsection \<open>Sequences of operations\<close>

datatype operation =
  Rename string string
| InsertChild string
| InsertSibling string
| DeleteSubtree string
| AppendTopLevel

fun step :: "draws \<Rightarrow> operation \<Rightarrow> forest \<times> nat \<Rightarrow> forest \<times> nat" where
  "step draws (Rename ident newT) (nodes, k) = (rename ident newT nodes, k)"
| "step draws (InsertChild parentId) (nodes, k) = handleAddChild draws parentId nodes k"
| "step draws (InsertSibling ident) (nodes, k) = handleAddSibling draws ident nodes k"
| "step draws (DeleteSubtree ident) (nodes, k) = (handleDeleteNode ident nodes, k)"
| "step draws AppendTopLevel (nodes, k) = appendTopLevel draws nodes k"

fun run :: "draws \<Rightarrow> operation list \<Rightarrow> forest \<times> nat \<Rightarrow> forest \<times> nat" where
  "run draws [] s = s"
| "run draws (op # ops) s = run draws ops (step draws op s)"

section \<open>Vocabulary of the properties\<close>

text \<open>The ids of a forest, in document order (a node before its children).\<close>

fun ids :: "OutlineNode list \<Rightarrow> string list"
  and ids_node :: "OutlineNode \<Rightarrow> string list"
where
  "ids [] = []"
| "ids (node # rest) = ids_node node @ ids rest"
| "ids_node (OutlineNode i t l cs) = i # ids cs"

definition node_count :: "forest \<Rightarrow> nat" where
  "node_count f = length (ids f)"

text \<open>
  The rows of a forest, in document order: for every node the id of its parent
  (\<open>None\<close> at the top), its id, its title and its level. When the ids are unique the
  rows determine the forest.
\<close>

type_synonym row = "string option \<times> string \<times> string \<times> int"

definition row_id :: "row \<Rightarrow> string" where
  "row_id r = fst (snd r)"

fun rows :: "string option \<Rightarrow> OutlineNode list \<Rightarrow> row list"
  and rows_node :: "string option \<Rightarrow> OutlineNode \<Rightarrow> row list"
where
  "rows parent [] = []"
| "rows parent (node # rest) = rows_node parent node @ rows parent rest"
| "rows_node parent (OutlineNode i t l cs) = (parent, i, t, l) # rows (Some i) cs"

text \<open>
  The first node with a given id in document order, and the ids of that node and of
  all its descendants.
\<close>

fun find_node :: "string \<Rightarrow> OutlineNode list \<Rightarrow> OutlineNode option"
  and find_in :: "string \<Rightarrow> OutlineNode \<Rightarrow> OutlineNode option"
where
  "find_node ident [] = None"
| "find_node ident (node # rest) =
     (case find_in ident node of Some r \<Rightarrow> Some r | None \<Rightarrow> find_node ident rest)"
| "find_in ident (OutlineNode i t l cs) =
     (if i = ident then Some (OutlineNode i t l cs) else find_node ident cs)"

definition subtree_ids :: "string \<Rightarrow> forest \<Rightarrow> string list" where
  "subtree_ids ident f = (case find_node ident f of None \<Rightarrow> [] | Some n \<Rightarrow> ids_node n)"

text \<open>
  The level invariant: every node of a sibling list at depth \<open>d\<close> has level \<open>d\<close>, and
  the children of a node at depth \<open>d\<close> are at depth \<open>d + 1\<close>; the top is at depth 1.
\<close>

fun levels_from :: "int \<Rightarrow> OutlineNode list \<Rightarrow> bool"
  and levels_node :: "int \<Rightarrow> OutlineNode \<Rightarrow> bool"
where
  "levels_from d [] = True"
| "levels_from d (node # rest) = (levels_node d node \<and> levels_from d rest)"
| "levels_node d (OutlineNode i t l cs) = (l = d \<and> levels_from (d + 1) cs)"


text \<open>
  The nesting depth of a forest: 0 for the empty forest, 1 for a forest of nodes
  without children. In a forest that satisfies the level invariant the greatest level
  is the depth.
\<close>

fun depth :: "OutlineNode list \<Rightarrow> nat"
  and depth_node :: "OutlineNode \<Rightarrow> nat"
where
  "depth [] = 0"
| "depth (node # rest) = max (depth_node node) (depth rest)"
| "depth_node (OutlineNode i t l cs) = Suc (depth cs)"


text \<open>
  What one operation does to a forest, said without the code. In each relation the
  second forest is the first with one change at one place, every other node, its
  children and every order being the same. The change is at the head of a sibling
  list (\<open>here\<close>), inside the children of the head (\<open>below\<close>) or further along the
  list (\<open>later\<close>).
  \<^item> \<open>child_appended parentId newId\<close>: the node with id \<open>parentId\<close> got one more
    child, at the end of its children: a node with id \<open>newId\<close>, the default title,
    the level of the parent plus one and no children.
  \<^item> \<open>sibling_inserted anchorId newId\<close>: in the sibling list that holds a node with id
    \<open>anchorId\<close>, a node with id \<open>newId\<close>, the default title, the level of that
    node and no children was inserted right after it.
  \<^item> \<open>title_replaced ident newT\<close>: the node with id \<open>ident\<close> got the title \<open>newT\<close>.
\<close>

inductive child_appended :: "string \<Rightarrow> string \<Rightarrow> forest \<Rightarrow> forest \<Rightarrow> bool"
  for parentId :: string and newId :: string
where
  here: "child_appended parentId newId
           (OutlineNode parentId t l cs # rest)
           (OutlineNode parentId t l (cs @ [OutlineNode newId newTitle (l + 1) []]) # rest)"
| below: "child_appended parentId newId cs cs' \<Longrightarrow>
          child_appended parentId newId
            (OutlineNode i t l cs # rest) (OutlineNode i t l cs' # rest)"
| later: "child_appended parentId newId rest rest' \<Longrightarrow>
          child_appended parentId newId (node # rest) (node # rest')"

code_pred child_appended .

inductive sibling_inserted :: "string \<Rightarrow> string \<Rightarrow> forest \<Rightarrow> forest \<Rightarrow> bool"
  for anchorId :: string and newId :: string
where
  here: "sibling_inserted anchorId newId
           (OutlineNode anchorId t l cs # rest)
           (OutlineNode anchorId t l cs # OutlineNode newId newTitle l [] # rest)"
| below: "sibling_inserted anchorId newId cs cs' \<Longrightarrow>
          sibling_inserted anchorId newId
            (OutlineNode i t l cs # rest) (OutlineNode i t l cs' # rest)"
| later: "sibling_inserted anchorId newId rest rest' \<Longrightarrow>
          sibling_inserted anchorId newId (node # rest) (node # rest')"

code_pred sibling_inserted .

inductive title_replaced :: "string \<Rightarrow> string \<Rightarrow> forest \<Rightarrow> forest \<Rightarrow> bool"
  for ident :: string and newT :: string
where
  here: "title_replaced ident newT
           (OutlineNode ident t l cs # rest) (OutlineNode ident newT l cs # rest)"
| below: "title_replaced ident newT cs cs' \<Longrightarrow>
          title_replaced ident newT
            (OutlineNode i t l cs # rest) (OutlineNode i t l cs' # rest)"
| later: "title_replaced ident newT rest rest' \<Longrightarrow>
          title_replaced ident newT (node # rest) (node # rest')"

code_pred title_replaced .

text \<open>
  The operations that create a node, and the runs in which every id drawn during a
  step is different from every id that is in the forest when the step begins.
\<close>

fun mints :: "operation \<Rightarrow> bool" where
  "mints (Rename ident newT) = False"
| "mints (InsertChild parentId) = True"
| "mints (InsertSibling ident) = True"
| "mints (DeleteSubtree ident) = False"
| "mints AppendTopLevel = True"

fun fresh_run :: "draws \<Rightarrow> operation list \<Rightarrow> forest \<times> nat \<Rightarrow> bool" where
  "fresh_run draws [] s = True"
| "fresh_run draws (op # ops) s =
     ((\<forall>j \<in> {snd s ..< snd (step draws op s)}. draws j \<notin> set (ids (fst s))) \<and>
      fresh_run draws ops (step draws op s))"

text \<open>
  Two sequences of draws used in examples: \<^verbatim>\<open>Math.random()\<close> returning 0.5 every time
  (\<^verbatim>\<open>(0.5).toString(36)\<close> is \<^verbatim>\<open>"0.i"\<close>), and returning 0.5 first and 0.75 afterwards
  (\<^verbatim>\<open>(0.75).toString(36)\<close> is \<^verbatim>\<open>"0.r"\<close>).
\<close>

definition draws_half :: draws where
  "draws_half n = ''i''"

definition draws_half_then :: draws where
  "draws_half_then n = (if n = 0 then ''i'' else ''r'')"

section \<open>Basic facts\<close>

lemma forest_induct [case_names Nil Node]:
  assumes "P []"
    and "\<And>i t l cs rest. P cs \<Longrightarrow> P rest \<Longrightarrow> P (OutlineNode i t l cs # rest)"
  shows "P f"
proof (induction "size_list size f" arbitrary: f rule: less_induct)
  case less
  show ?case
  proof (cases f)
    case Nil
    then show ?thesis using assms(1) by simp
  next
    case (Cons n rest)
    obtain i t l cs where n: "n = OutlineNode i t l cs" by (cases n)
    have "P cs" using less[of cs] Cons n by simp
    moreover have "P rest" using less[of rest] Cons by simp
    ultimately show ?thesis using assms(2) Cons n by simp
  qed
qed

lemma top_ids_subset: "n \<in> set f \<Longrightarrow> id_of n \<in> set (ids f)"
  by (induction f rule: forest_induct) auto

lemma ids_append [simp]: "ids (xs @ ys) = ids xs @ ids ys"
  by (induction xs) auto

lemma rows_append [simp]: "rows q (xs @ ys) = rows q xs @ rows q ys"
  by (induction xs) auto

lemma ids_rows: "map row_id (rows q f) = ids f"
  by (induction f arbitrary: q rule: forest_induct) (auto simp: row_id_def)

subsection \<open>The recursions are the \<^verbatim>\<open>map\<close> and \<^verbatim>\<open>filter\<close> of the source\<close>

lemma updateRecursive_map:
  "updateRecursive ident u nodes = map (updateRecursive_node ident u) nodes"
  by (induction nodes) simp_all

lemma deleteRecursive_filter_map:
  "deleteRecursive ident nodes
     = map (deleteRecursive_node ident) (filter (\<lambda>node. id_of node \<noteq> ident) nodes)"
  by (induction nodes) simp_all

lemma deleteRecursive_node_children:
  "deleteRecursive_node ident node
     = OutlineNode (id_of node) (title node) (level node)
         (deleteRecursive ident (children node))"
  by (cases node) simp

subsection \<open>\<^verbatim>\<open>findIndex\<close>\<close>

lemma findIndex_ge: "- 1 \<le> findIndex p xs"
  by (induction xs) (auto simp: Let_def)

lemma findIndex_succ_ne [simp]: "2 + findIndex p xs \<noteq> 0"
  using findIndex_ge[of p xs] by arith

lemma findIndex_none: "findIndex p xs = - 1 \<longleftrightarrow> (\<forall>x \<in> set xs. \<not> p x)"
  by (induction xs) (auto simp: Let_def)

lemma findIndex_some:
  "findIndex p xs \<noteq> - 1 \<Longrightarrow>
     \<exists>pre x post. xs = pre @ x # post \<and> p x \<and> (\<forall>y \<in> set pre. \<not> p y)
        \<and> findIndex p xs = int (length pre)"
proof (induction xs)
  case Nil
  then show ?case by simp
next
  case (Cons a xs)
  show ?case
  proof (cases "p a")
    case True
    then have "a # xs = [] @ a # xs \<and> p a \<and> (\<forall>y \<in> set []. \<not> p y)
        \<and> findIndex p (a # xs) = int (length ([]::'a list))" by simp
    then show ?thesis by blast
  next
    case False
    with Cons.prems have ne: "findIndex p xs \<noteq> - 1" by (auto simp: Let_def)
    from Cons.IH[OF ne] obtain pre x post where
      h: "xs = pre @ x # post" "p x" "\<forall>y \<in> set pre. \<not> p y" "findIndex p xs = int (length pre)"
      by blast
    have "a # xs = (a # pre) @ x # post \<and> p x \<and> (\<forall>y \<in> set (a # pre). \<not> p y)
        \<and> findIndex p (a # xs) = int (length (a # pre))"
      using h False ne by (simp add: Let_def)
    then show ?thesis by blast
  qed
qed

lemma findIndex_append:
  "\<forall>y \<in> set pre. \<not> p y \<Longrightarrow> p x \<Longrightarrow> findIndex p (pre @ x # post) = int (length pre)"
  by (induction pre) (auto simp: Let_def)

subsection \<open>The two cases of \<^verbatim>\<open>addSiblingRecursive\<close>\<close>

lemma addSibling_found:
  assumes "\<forall>y \<in> set pre. id_of y \<noteq> ident" and "id_of x = ident"
  shows "addSiblingRecursive draws ident (pre @ x # post) k
           = (pre @ x # OutlineNode (draws k) newTitle (level x) [] # post, Suc k)"
proof -
  have "findIndex (\<lambda>n. id_of n = ident) (pre @ x # post) = int (length pre)"
    using assms by (intro findIndex_append) auto
  then show ?thesis
    by (simp add: Let_def splice_in_def nat_add_distrib)
qed

lemma addSibling_not_found:
  assumes "\<forall>y \<in> set f. id_of y \<noteq> ident"
  shows "addSiblingRecursive draws ident f k = addSibling_map draws ident f k"
proof -
  have "findIndex (\<lambda>n. id_of n = ident) f = - 1"
    using assms by (simp add: findIndex_none)
  then show ?thesis by simp
qed

declare addSiblingRecursive.simps [simp del]

subsection \<open>An id that is not in the forest\<close>

lemma updateRecursive_absent:
  "ident \<notin> set (ids f) \<Longrightarrow> updateRecursive ident u f = f"
  by (induction f rule: forest_induct) auto

lemma deleteRecursive_absent:
  "ident \<notin> set (ids f) \<Longrightarrow> deleteRecursive ident f = f"
  by (induction f rule: forest_induct) auto

lemma addRecursive_absent:
  "parentId \<notin> set (ids f) \<Longrightarrow> addRecursive draws parentId f k = (f, k)"
  by (induction f arbitrary: k rule: forest_induct) auto

lemma addSibling_absent:
  "ident \<notin> set (ids f) \<Longrightarrow> addSiblingRecursive draws ident f k = (f, k)"
proof (induction f arbitrary: k rule: forest_induct)
  case Nil
  then show ?case by (simp add: addSibling_not_found)
next
  case (Node i t l cs rest)
  let ?f = "OutlineNode i t l cs # rest"
  have nf: "\<forall>y \<in> set ?f. id_of y \<noteq> ident"
    using Node.prems top_ids_subset[of _ ?f] by blast
  then have nr: "\<forall>y \<in> set rest. id_of y \<noteq> ident" by simp
  have a: "addSiblingRecursive draws ident cs k = (cs, k)" using Node by simp
  have b: "addSiblingRecursive draws ident rest k = (rest, k)" using Node by simp
  show ?case
    using a b addSibling_not_found[OF nf, of draws k] addSibling_not_found[OF nr, of draws k]
    by simp
qed

lemma deleteRecursive_gone: "ident \<notin> set (ids (deleteRecursive ident f))"
  by (induction f rule: forest_induct) auto

subsection \<open>The addition of numbers\<close>

lemma js_add_exact: "\<bar>a + b\<bar> \<le> 2 ^ 53 \<Longrightarrow> js_add a b = a + b"
  by (simp add: js_add_def round_double_def)

declare bitlen.simps [simp del]

subsection \<open>Looking a node up\<close>

lemma find_node_absent: "d \<notin> set (ids f) \<Longrightarrow> find_node d f = None"
  by (induction f rule: forest_induct) auto

lemma find_node_present: "d \<in> set (ids f) \<Longrightarrow> \<exists>n. find_node d f = Some n"
  by (induction f rule: forest_induct) (auto split: option.splits)

lemma find_node_ids:
  "find_node d f = Some n \<Longrightarrow> id_of n = d \<and> set (ids_node n) \<subseteq> set (ids f)"
  by (induction f rule: forest_induct) (auto split: option.splits if_splits)

lemma subtree_ids_subset: "set (subtree_ids d f) \<subseteq> set (ids f)"
  by (cases "find_node d f") (auto simp: subtree_ids_def dest: find_node_ids)

lemma subtree_ids_self: "d \<in> set (ids f) \<Longrightarrow> d \<in> set (subtree_ids d f)"
proof -
  assume "d \<in> set (ids f)"
  then obtain n where n: "find_node d f = Some n" using find_node_present by blast
  then have "id_of n = d" using find_node_ids by blast
  then have "d \<in> set (ids_node n)" by (cases n) auto
  then show ?thesis using n by (simp add: subtree_ids_def)
qed

lemma subtree_ids_here [simp]:
  "subtree_ids d (OutlineNode d t l cs # rest) = d # ids cs"
  by (simp add: subtree_ids_def)

lemma subtree_ids_below:
  "i \<noteq> d \<Longrightarrow> d \<in> set (ids cs) \<Longrightarrow>
     subtree_ids d (OutlineNode i t l cs # rest) = subtree_ids d cs"
  using find_node_present[of d cs] by (auto simp: subtree_ids_def)

lemma subtree_ids_rest:
  "i \<noteq> d \<Longrightarrow> d \<notin> set (ids cs) \<Longrightarrow>
     subtree_ids d (OutlineNode i t l cs # rest) = subtree_ids d rest"
  using find_node_absent[of d cs] by (auto simp: subtree_ids_def)

subsection \<open>The nesting depth\<close>

lemma depth_append [simp]: "depth (xs @ ys) = max (depth xs) (depth ys)"
  by (induction xs) auto






subsection \<open>The level invariant\<close>

lemma levels_from_append [simp]:
  "levels_from d (xs @ ys) = (levels_from d xs \<and> levels_from d ys)"
  by (induction xs) auto






subsection \<open>An id that is in a forest with unique ids\<close>

lemma addRecursive_present:
  "distinct (ids f) \<Longrightarrow> find_node p f = Some parent \<Longrightarrow> \<bar>level parent + 1\<bar> \<le> 2 ^ 53 \<Longrightarrow>
     \<exists>f'. addRecursive draws p f k = (f', Suc k) \<and> child_appended p (draws k) f f'"
proof (induction f arbitrary: k rule: forest_induct)
  case Nil
  then show ?case by simp
next
  case (Node i t l cs rest)
  let ?new = "OutlineNode (draws k) newTitle (l + 1) []"
  show ?case
  proof (cases "i = p")
    case True
    then have "parent = OutlineNode i t l cs" using Node.prems(2) by simp
    then have "\<bar>l + 1\<bar> \<le> 2 ^ 53" using Node.prems(3) by simp
    then have ex: "js_add l 1 = l + 1" by (rule js_add_exact)
    have "p \<notin> set (ids rest)" using Node.prems(1) True by auto
    then have "addRecursive draws p rest (Suc k) = (rest, Suc k)"
      by (rule addRecursive_absent)
    then have "addRecursive draws p (OutlineNode i t l cs # rest) k
                 = (OutlineNode i t l (cs @ [?new]) # rest, Suc k)"
      using True ex by simp
    moreover have "child_appended p (draws k) (OutlineNode i t l cs # rest)
                     (OutlineNode i t l (cs @ [?new]) # rest)"
      using child_appended.here[of p "draws k" t l cs rest] True by simp
    ultimately show ?thesis by simp
  next
    case False
    show ?thesis
    proof (cases "p \<in> set (ids cs)")
      case True
      then have ne: "cs \<noteq> []" by auto
      have "p \<notin> set (ids rest)" using Node.prems(1) True by auto
      then have r: "addRecursive draws p rest (Suc k) = (rest, Suc k)"
        by (rule addRecursive_absent)
      obtain n where "find_node p cs = Some n" using find_node_present[OF True] by blast
      then have fc: "find_node p cs = Some parent" using Node.prems(2) False by simp
      from Node.IH(1)[OF _ fc Node.prems(3), of k] Node.prems(1) obtain c1 where
        c: "addRecursive draws p cs k = (c1, Suc k)" "child_appended p (draws k) cs c1"
        by auto
      have "addRecursive draws p (OutlineNode i t l cs # rest) k
              = (OutlineNode i t l c1 # rest, Suc k)"
        using False ne c(1) r by simp
      moreover have "child_appended p (draws k) (OutlineNode i t l cs # rest)
                       (OutlineNode i t l c1 # rest)"
        using child_appended.below[OF c(2), of i t l rest] by simp
      ultimately show ?thesis by simp
    next
      case nc: False
      have fr: "find_node p rest = Some parent"
        using Node.prems(2) False find_node_absent[OF nc] by simp
      have n: "addRecursive_node draws p (OutlineNode i t l cs) k = (OutlineNode i t l cs, k)"
        using False addRecursive_absent[OF nc, of draws k] by simp
      from Node.IH(2)[OF _ fr Node.prems(3), of k] Node.prems(1) obtain r2 where
        r: "addRecursive draws p rest k = (r2, Suc k)" "child_appended p (draws k) rest r2"
        by auto
      have "addRecursive draws p (OutlineNode i t l cs # rest) k
              = (OutlineNode i t l cs # r2, Suc k)"
        using n r(1) by (simp del: addRecursive_node.simps)
      then show ?thesis using child_appended.later[OF r(2)] by simp
    qed
  qed
qed

lemma addRecursive_rows:
  "distinct (ids f) \<Longrightarrow> p \<in> set (ids f) \<Longrightarrow>
     \<exists>f' l. addRecursive draws p f k = (f', Suc k) \<and>
       mset (rows q f') = add_mset (Some p, draws k, newTitle, l) (mset (rows q f))"
proof (induction f arbitrary: k q rule: forest_induct)
  case Nil
  then show ?case by simp
next
  case (Node i t l cs rest)
  show ?case
  proof (cases "i = p")
    case True
    then have "p \<notin> set (ids rest)" using Node.prems(1) by auto
    then have "addRecursive draws p rest (Suc k) = (rest, Suc k)"
      by (rule addRecursive_absent)
    then have "addRecursive draws p (OutlineNode i t l cs # rest) k
        = (OutlineNode i t l (cs @ [OutlineNode (draws k) newTitle (js_add l 1) []]) # rest, Suc k)"
      using True by simp
    moreover have "mset (rows q
          (OutlineNode i t l (cs @ [OutlineNode (draws k) newTitle (js_add l 1) []]) # rest))
        = add_mset (Some p, draws k, newTitle, js_add l 1)
            (mset (rows q (OutlineNode i t l cs # rest)))"
      using True by simp
    ultimately show ?thesis by blast
  next
    case False
    show ?thesis
    proof (cases "p \<in> set (ids cs)")
      case True
      then have ne: "cs \<noteq> []" by auto
      have "p \<notin> set (ids rest)" using Node.prems(1) True by auto
      then have r: "addRecursive draws p rest (Suc k) = (rest, Suc k)"
        by (rule addRecursive_absent)
      from Node.IH(1)[OF _ True, of k "Some i"] Node.prems(1) obtain c1 l' where
        c: "addRecursive draws p cs k = (c1, Suc k)"
           "mset (rows (Some i) c1)
              = add_mset (Some p, draws k, newTitle, l') (mset (rows (Some i) cs))"
        by auto
      have "addRecursive draws p (OutlineNode i t l cs # rest) k
              = (OutlineNode i t l c1 # rest, Suc k)"
        using False ne c(1) r by simp
      moreover have "mset (rows q (OutlineNode i t l c1 # rest))
          = add_mset (Some p, draws k, newTitle, l') (mset (rows q (OutlineNode i t l cs # rest)))"
        using c(2) by simp
      ultimately show ?thesis by blast
    next
      case nc: False
      then have inr: "p \<in> set (ids rest)" using Node.prems(2) False by auto
      have n: "addRecursive_node draws p (OutlineNode i t l cs) k = (OutlineNode i t l cs, k)"
        using False addRecursive_absent[OF nc, of draws k] by simp
      from Node.IH(2)[OF _ inr, of k q] Node.prems(1) obtain r2 l' where
        r: "addRecursive draws p rest k = (r2, Suc k)"
           "mset (rows q r2) = add_mset (Some p, draws k, newTitle, l') (mset (rows q rest))"
        by auto
      have "addRecursive draws p (OutlineNode i t l cs # rest) k
              = (OutlineNode i t l cs # r2, Suc k)"
        using n r(1) by (simp del: addRecursive_node.simps)
      moreover have "mset (rows q (OutlineNode i t l cs # r2))
          = add_mset (Some p, draws k, newTitle, l') (mset (rows q (OutlineNode i t l cs # rest)))"
        using r(2) by simp
      ultimately show ?thesis by blast
    qed
  qed
qed

lemma sibling_inserted_prepend:
  "sibling_inserted a nid xs ys \<Longrightarrow> sibling_inserted a nid (pre @ xs) (pre @ ys)"
  by (induction pre) (simp_all add: sibling_inserted.later)

lemma addSibling_present:
  "distinct (ids f) \<Longrightarrow> a \<in> set (ids f) \<Longrightarrow>
     \<exists>f'. addSiblingRecursive draws a f k = (f', Suc k) \<and> sibling_inserted a (draws k) f f'"
proof (induction f arbitrary: k rule: forest_induct)
  case Nil
  then show ?case by simp
next
  case (Node i t l cs rest)
  let ?f = "OutlineNode i t l cs # rest"
  show ?case
  proof (cases "\<exists>y \<in> set ?f. id_of y = a")
    case True
    from split_list_first_prop[OF True] obtain pre x post where
      h: "?f = pre @ x # post" "id_of x = a" "\<forall>y \<in> set pre. id_of y \<noteq> a"
      by blast
    have "addSiblingRecursive draws a ?f k
            = (pre @ x # OutlineNode (draws k) newTitle (level x) [] # post, Suc k)"
      using addSibling_found[OF h(3) h(2), of draws post k] h(1) by simp
    moreover have "sibling_inserted a (draws k) ?f
            (pre @ x # OutlineNode (draws k) newTitle (level x) [] # post)"
    proof -
      obtain xt xl xcs where x: "x = OutlineNode a xt xl xcs" using h(2) by (cases x) simp
      have "sibling_inserted a (draws k) (x # post)
              (x # OutlineNode (draws k) newTitle (level x) [] # post)"
        unfolding x using sibling_inserted.here[of a "draws k" xt xl xcs post] by simp
      then show ?thesis using sibling_inserted_prepend[of a "draws k" _ _ pre] h(1) by simp
    qed
    ultimately show ?thesis by simp
  next
    case False
    then have nf: "\<forall>y \<in> set ?f. id_of y \<noteq> a" and nr: "\<forall>y \<in> set rest. id_of y \<noteq> a"
      and ni: "i \<noteq> a"
      by auto
    have unf: "addSiblingRecursive draws a ?f k =
        (case addSiblingRecursive draws a cs k of
           (cs', k') \<Rightarrow>
             (case addSiblingRecursive draws a rest k' of
                (rest', k'') \<Rightarrow> (OutlineNode i t l cs' # rest', k'')))"
      using addSibling_not_found[OF nf, of draws k] addSibling_not_found[OF nr, of draws]
      by simp
    show ?thesis
    proof (cases "a \<in> set (ids cs)")
      case True
      have "a \<notin> set (ids rest)" using Node.prems(1) True by auto
      then have r: "addSiblingRecursive draws a rest (Suc k) = (rest, Suc k)"
        by (rule addSibling_absent)
      from Node.IH(1)[OF _ True, of k] Node.prems(1) obtain c1 where
        c: "addSiblingRecursive draws a cs k = (c1, Suc k)" "sibling_inserted a (draws k) cs c1"
        by auto
      have "addSiblingRecursive draws a ?f k = (OutlineNode i t l c1 # rest, Suc k)"
        using unf c(1) r by simp
      moreover have "sibling_inserted a (draws k) ?f (OutlineNode i t l c1 # rest)"
        using sibling_inserted.below[OF c(2), of i t l rest] by simp
      ultimately show ?thesis by simp
    next
      case nc: False
      then have inr: "a \<in> set (ids rest)" using Node.prems(2) ni by auto
      have c: "addSiblingRecursive draws a cs k = (cs, k)"
        using nc by (rule addSibling_absent)
      from Node.IH(2)[OF _ inr, of k] Node.prems(1) obtain r2 where
        r: "addSiblingRecursive draws a rest k = (r2, Suc k)" "sibling_inserted a (draws k) rest r2"
        by auto
      have "addSiblingRecursive draws a ?f k = (OutlineNode i t l cs # r2, Suc k)"
        using unf c r(1) by simp
      then show ?thesis using sibling_inserted.later[OF r(2)] by simp
    qed
  qed
qed

lemma sibling_inserted_rows:
  "sibling_inserted a nid f f' \<Longrightarrow>
     \<exists>parent l. mset (rows q f') = add_mset (parent, nid, newTitle, l) (mset (rows q f))"
proof (induction arbitrary: q rule: sibling_inserted.induct)
  case (here t l cs rest)
  show ?case by (rule exI[of _ q], rule exI[of _ l]) simp
next
  case (below cs cs' i t l rest)
  from below.IH[of "Some i"] obtain parent l' where
    "mset (rows (Some i) cs') = add_mset (parent, nid, newTitle, l') (mset (rows (Some i) cs))"
    by blast
  then show ?case by (intro exI[of _ parent] exI[of _ l']) simp
next
  case (later rest rest' node)
  from later.IH[of q] obtain parent l' where
    "mset (rows q rest') = add_mset (parent, nid, newTitle, l') (mset (rows q rest))"
    by blast
  then show ?case by (intro exI[of _ parent] exI[of _ l']) simp
qed

lemma rename_present:
  "distinct (ids f) \<Longrightarrow> a \<in> set (ids f) \<Longrightarrow>
     title_replaced a newT f (updateRecursive a
       \<lparr>upd_id = None, upd_title = Some newT, upd_level = None, upd_children = None\<rparr> f)"
proof (induction f rule: forest_induct)
  case Nil
  then show ?case by simp
next
  case (Node i t l cs rest)
  let ?u = "\<lparr>upd_id = None, upd_title = Some newT, upd_level = None, upd_children = None\<rparr>"
  show ?case
  proof (cases "i = a")
    case True
    then have "a \<notin> set (ids rest)" using Node.prems(1) by auto
    then have "updateRecursive a ?u rest = rest" by (rule updateRecursive_absent)
    then have "updateRecursive a ?u (OutlineNode i t l cs # rest) = OutlineNode a newT l cs # rest"
      using True by (simp add: spread_def)
    then show ?thesis using title_replaced.here[of a newT t l cs rest] True by simp
  next
    case False
    show ?thesis
    proof (cases "a \<in> set (ids cs)")
      case True
      then have ne: "cs \<noteq> []" by auto
      have "a \<notin> set (ids rest)" using Node.prems(1) True by auto
      then have r: "updateRecursive a ?u rest = rest" by (rule updateRecursive_absent)
      have c: "title_replaced a newT cs (updateRecursive a ?u cs)"
        using Node.IH(1)[OF _ True] Node.prems(1) by simp
      have "updateRecursive a ?u (OutlineNode i t l cs # rest)
              = OutlineNode i t l (updateRecursive a ?u cs) # rest"
        using False ne r by simp
      then show ?thesis using title_replaced.below[OF c, of i t l rest] by simp
    next
      case nc: False
      then have inr: "a \<in> set (ids rest)" using Node.prems(2) False by auto
      have c: "updateRecursive a ?u cs = cs" using nc by (rule updateRecursive_absent)
      have r: "title_replaced a newT rest (updateRecursive a ?u rest)"
        using Node.IH(2)[OF _ inr] Node.prems(1) by simp
      have "updateRecursive a ?u (OutlineNode i t l cs # rest)
              = OutlineNode i t l cs # updateRecursive a ?u rest"
        using False c by simp
      then show ?thesis using title_replaced.later[OF r] by simp
    qed
  qed
qed


subsection \<open>Deleting in a forest with unique ids\<close>

lemma filter_rows_keep:
  "set A \<inter> set (ids f) = {} \<Longrightarrow> filter (\<lambda>r. row_id r \<notin> set A) (rows q f) = rows q f"
proof -
  assume d: "set A \<inter> set (ids f) = {}"
  have "\<forall>r \<in> set (rows q f). row_id r \<in> set (ids f)"
    using ids_rows[of q f] by (metis image_eqI list.set_map)
  then have "\<forall>r \<in> set (rows q f). row_id r \<notin> set A" using d by blast
  then show ?thesis by simp
qed

lemma filter_rows_drop:
  "set (ids f) \<subseteq> set A \<Longrightarrow> filter (\<lambda>r. row_id r \<notin> set A) (rows q f) = []"
proof -
  assume d: "set (ids f) \<subseteq> set A"
  have "\<forall>r \<in> set (rows q f). row_id r \<in> set (ids f)"
    using ids_rows[of q f] by (metis image_eqI list.set_map)
  then have "\<forall>r \<in> set (rows q f). \<not> row_id r \<notin> set A" using d by blast
  then show ?thesis by (simp add: filter_empty_conv)
qed

lemma rows_delete:
  "distinct (ids f) \<Longrightarrow>
     rows q (deleteRecursive d f) = filter (\<lambda>r. row_id r \<notin> set (subtree_ids d f)) (rows q f)"
proof (induction f arbitrary: q rule: forest_induct)
  case Nil
  then show ?case by simp
next
  case (Node i t l cs rest)
  have dc: "distinct (ids cs)" and dr: "distinct (ids rest)"
    and ic: "i \<notin> set (ids cs)" and ir: "i \<notin> set (ids rest)"
    and cr: "set (ids cs) \<inter> set (ids rest) = {}"
    using Node.prems by auto
  show ?case
  proof (cases "i = d")
    case True
    have "deleteRecursive d rest = rest" using ir True by (simp add: deleteRecursive_absent)
    moreover have "filter (\<lambda>r. row_id r \<notin> set (d # ids cs)) (rows q rest) = rows q rest"
      using ir cr True by (intro filter_rows_keep) auto
    moreover have "filter (\<lambda>r. row_id r \<notin> set (d # ids cs)) (rows (Some d) cs) = []"
      by (intro filter_rows_drop) auto
    ultimately show ?thesis using True by (simp add: row_id_def)
  next
    case False
    show ?thesis
    proof (cases "d \<in> set (ids cs)")
      case True
      let ?S = "subtree_ids d cs"
      have S: "set ?S \<subseteq> set (ids cs)" by (rule subtree_ids_subset)
      have "d \<notin> set (ids rest)" using cr True by auto
      then have "deleteRecursive d rest = rest" by (rule deleteRecursive_absent)
      moreover have "filter (\<lambda>r. row_id r \<notin> set ?S) (rows q rest) = rows q rest"
        using S cr by (intro filter_rows_keep) auto
      moreover have "i \<notin> set ?S" using S ic by auto
      ultimately show ?thesis
        using False Node.IH(1)[OF dc, of "Some i"] subtree_ids_below[OF False True, of t l rest]
        by (simp add: row_id_def)
    next
      case nc: False
      let ?S = "subtree_ids d rest"
      have S: "set ?S \<subseteq> set (ids rest)" by (rule subtree_ids_subset)
      have "deleteRecursive d cs = cs" using nc by (rule deleteRecursive_absent)
      moreover have "filter (\<lambda>r. row_id r \<notin> set ?S) (rows (Some i) cs) = rows (Some i) cs"
        using S cr by (intro filter_rows_keep) auto
      moreover have "i \<notin> set ?S" using S ir by auto
      ultimately show ?thesis
        using False Node.IH(2)[OF dr, of q] subtree_ids_rest[OF False nc, of t l rest]
        by (simp add: row_id_def)
    qed
  qed
qed

lemma ids_delete:
  "distinct (ids f) \<Longrightarrow>
     ids (deleteRecursive d f) = filter (\<lambda>x. x \<notin> set (subtree_ids d f)) (ids f)"
proof -
  assume "distinct (ids f)"
  then have "map row_id (rows None (deleteRecursive d f))
     = map row_id (filter (\<lambda>r. row_id r \<notin> set (subtree_ids d f)) (rows None f))"
    by (simp add: rows_delete)
  then show ?thesis unfolding filter_map ids_rows comp_def
    by (simp flip: ids_rows[of None f] add: filter_map comp_def)
qed

subsection \<open>Unique ids after an insertion\<close>

lemma mset_ids_of_rows:
  assumes "mset (rows q f') = add_mset r (mset (rows q f))"
  shows "mset (ids f') = add_mset (row_id r) (mset (ids f))"
proof -
  have "image_mset row_id (mset (rows q f')) = image_mset row_id (add_mset r (mset (rows q f)))"
    using assms by simp
  then have "mset (map row_id (rows q f')) = add_mset (row_id r) (mset (map row_id (rows q f)))"
    by simp
  then show ?thesis by (simp only: ids_rows)
qed

lemma distinct_add_fresh:
  assumes "mset (ids f') = add_mset x (mset (ids f))" and "distinct (ids f)" and "x \<notin> set (ids f)"
  shows "distinct (ids f')"
proof -
  have "mset (ids f') = mset (x # ids f)" using assms(1) by simp
  then have "distinct (ids f') = distinct (x # ids f)" by (rule mset_eq_imp_distinct_iff)
  then show ?thesis using assms(2,3) by simp
qed

lemma distinct_step:
  assumes "distinct (ids f)" and "mints op" and "step draws op (f, k) = (f', k')"
    and "\<forall>j \<in> {k ..< k'}. draws j \<notin> set (ids f)"
  shows "distinct (ids f')"
proof (cases op)
  case (Rename a t)
  then show ?thesis using assms(2) by simp
next
  case (DeleteSubtree a)
  then show ?thesis using assms(2) by simp
next
  case AppendTopLevel
  then have "f' = f @ [OutlineNode (draws k) newTopTitle 1 []]" and "k' = Suc k"
    using assms(3) by (auto simp: appendTopLevel_def)
  then show ?thesis using assms(1,4) by simp
next
  case (InsertChild p)
  show ?thesis
  proof (cases "p \<in> set (ids f)")
    case False
    then show ?thesis
      using assms(1,3) InsertChild by (simp add: handleAddChild_def addRecursive_absent)
  next
    case True
    from addRecursive_rows[OF assms(1) True, of draws k None] obtain g l where
      g: "addRecursive draws p f k = (g, Suc k)"
         "mset (rows None g) = add_mset (Some p, draws k, newTitle, l) (mset (rows None f))"
      by blast
    then have e: "f' = g" "k' = Suc k" using assms(3) InsertChild by (simp_all add: handleAddChild_def)
    from g(2) have "mset (ids g) = add_mset (draws k) (mset (ids f))"
      using mset_ids_of_rows[of None g "(Some p, draws k, newTitle, l)" f] by (simp add: row_id_def)
    moreover have "draws k \<notin> set (ids f)" using assms(4) e(2) by simp
    ultimately show ?thesis using distinct_add_fresh assms(1) e(1) by blast
  qed
next
  case (InsertSibling a)
  show ?thesis
  proof (cases "a \<in> set (ids f)")
    case False
    then show ?thesis
      using assms(1,3) InsertSibling by (simp add: handleAddSibling_def addSibling_absent)
  next
    case True
    from addSibling_present[OF assms(1) True, of draws k] obtain g where
      g: "addSiblingRecursive draws a f k = (g, Suc k)" "sibling_inserted a (draws k) f g" by blast
    then have e: "f' = g" "k' = Suc k" using assms(3) InsertSibling by (simp_all add: handleAddSibling_def)
    from sibling_inserted_rows[OF g(2), of None] obtain parent l where
      "mset (rows None g) = add_mset (parent, draws k, newTitle, l) (mset (rows None f))" by blast
    then have "mset (ids g) = add_mset (draws k) (mset (ids f))"
      using mset_ids_of_rows[of None g "(parent, draws k, newTitle, l)" f] by (simp add: row_id_def)
    moreover have "draws k \<notin> set (ids f)" using assms(4) e(2) by simp
    ultimately show ?thesis using distinct_add_fresh assms(1) e(1) by blast
  qed
qed

subsection \<open>The ids drawn decide the result of an insertion\<close>




subsection \<open>A child under the last node of a chain\<close>



section \<open>The claims\<close>

text \<open>
  C3. An id that occurs nowhere in the forest: rename, insertChild, insertSibling and
  deleteSubtree each return the forest they were given (same ids, titles, levels,
  nesting and order), and the insertions draw no id.
\<close>

theorem absent_id_is_noop:
  "ident \<notin> set (ids f) \<Longrightarrow>
     rename ident newT f = f \<and>
     handleAddChild draws ident f k = (f, k) \<and>
     handleAddSibling draws ident f k = (f, k) \<and>
     handleDeleteNode ident f = f"
  by (simp add: rename_def handleUpdateNode_def handleAddChild_def handleAddSibling_def
      handleDeleteNode_def updateRecursive_absent addRecursive_absent addSibling_absent
      deleteRecursive_absent)

theorem absent_id_is_noop_witness:
  "''zz'' \<notin> set (ids [OutlineNode ''a'' ''x'' 1 [OutlineNode ''b'' ''y'' 2 []]]) \<and>
   rename ''zz'' ''t'' [OutlineNode ''a'' ''x'' 1 [OutlineNode ''b'' ''y'' 2 []]]
     = [OutlineNode ''a'' ''x'' 1 [OutlineNode ''b'' ''y'' 2 []]] \<and>
   handleAddChild draws_half ''zz'' [OutlineNode ''a'' ''x'' 1 [OutlineNode ''b'' ''y'' 2 []]] 0
     = ([OutlineNode ''a'' ''x'' 1 [OutlineNode ''b'' ''y'' 2 []]], 0) \<and>
   handleAddSibling draws_half ''zz'' [OutlineNode ''a'' ''x'' 1 [OutlineNode ''b'' ''y'' 2 []]] 0
     = ([OutlineNode ''a'' ''x'' 1 [OutlineNode ''b'' ''y'' 2 []]], 0) \<and>
   handleDeleteNode ''zz'' [OutlineNode ''a'' ''x'' 1 [OutlineNode ''b'' ''y'' 2 []]]
     = [OutlineNode ''a'' ''x'' 1 [OutlineNode ''b'' ''y'' 2 []]]"
proof -
  have h: "''zz'' \<notin> set (ids [OutlineNode ''a'' ''x'' 1 [OutlineNode ''b'' ''y'' 2 []]])"
    by simp
  show ?thesis
    using h absent_id_is_noop [OF h, of "''t''" draws_half 0] by blast
qed

text \<open>
  C8. Deleting the same id twice in succession gives the same forest as deleting it
  once, for every forest and every id.
\<close>

theorem delete_idempotent:
  "handleDeleteNode ident (handleDeleteNode ident f) = handleDeleteNode ident f"
  unfolding handleDeleteNode_def
  by (rule deleteRecursive_absent [OF deleteRecursive_gone])




text \<open>
  C1 (as amended). Starting from a forest with unique ids, after every sequence of
  insertChild, insertSibling and appendTopLevel operations in which every id drawn
  differs from the ids that are in the forest when it is drawn, every id of the
  resulting forest is unique.
\<close>

theorem unique_ids_preserved_when_fresh:
  "distinct (ids f) \<Longrightarrow> list_all mints ops \<Longrightarrow> fresh_run draws ops (f, k) \<Longrightarrow>
     distinct (ids (fst (run draws ops (f, k))))"
proof (induction ops arbitrary: f k)
  case Nil
  then show ?case by simp
next
  case (Cons op ops)
  obtain f' k' where s: "step draws op (f, k) = (f', k')" by (cases "step draws op (f, k)")
  have "distinct (ids f')"
    using distinct_step[OF Cons.prems(1) _ s] Cons.prems(2,3) s by simp
  then show ?case using Cons.IH[of f' k'] Cons.prems(2,3) s by simp
qed

theorem unique_ids_preserved_when_fresh_witness:
  "distinct (ids [OutlineNode ''a'' ''x'' 1 [OutlineNode ''b'' ''y'' 2 []]]) \<and>
   list_all mints [InsertChild ''b'', InsertSibling ''i'', InsertSibling ''zz''] \<and>
   fresh_run draws_half_then [InsertChild ''b'', InsertSibling ''i'', InsertSibling ''zz'']
     ([OutlineNode ''a'' ''x'' 1 [OutlineNode ''b'' ''y'' 2 []]], 0) \<and>
   distinct (ids (fst (run draws_half_then
     [InsertChild ''b'', InsertSibling ''i'', InsertSibling ''zz'']
     ([OutlineNode ''a'' ''x'' 1 [OutlineNode ''b'' ''y'' 2 []]], 0))))"
proof -
  let ?F = "[OutlineNode ''a'' ''x'' 1 [OutlineNode ''b'' ''y'' 2 []]]"
  let ?ops = "[InsertChild ''b'', InsertSibling ''i'', InsertSibling ''zz'']"
  have h1: "distinct (ids ?F)" by simp
  have h2: "list_all mints ?ops" by simp
  have h3: "fresh_run draws_half_then ?ops (?F, 0)"
    by (simp add: handleAddChild_def handleAddSibling_def draws_half_then_def
        addSiblingRecursive.simps Let_def splice_in_def)
  show ?thesis using h1 h2 h3 unique_ids_preserved_when_fresh [OF h1 h2 h3] by blast
qed

text \<open>
  C1 as stated fails: the forest with the single node "i" has unique ids, and
  appendTopLevel, when the random source yields "i" (\<^verbatim>\<open>Math.random()\<close> returning
  0.5), gives a forest in which the id "i" occurs twice.
\<close>

theorem unique_ids_counterexample:
  "distinct (ids [OutlineNode ''i'' ''x'' 1 []]) \<and>
   \<not> distinct (ids (fst (run draws_half [AppendTopLevel] ([OutlineNode ''i'' ''x'' 1 []], 0))))"
  by (simp add: appendTopLevel_def draws_half_def)

text \<open>
  C4. In a forest with unique ids that contains the id, deleteSubtree removes the
  node with this id and all its descendants: neither the id nor the id of a
  descendant occurs in the result, and the rows of the result (parent, id, title and
  level of every node, in document order) are the rows of all the other nodes,
  unchanged and in the same order.
\<close>

theorem delete_removes_subtree:
  "distinct (ids f) \<Longrightarrow> ident \<in> set (ids f) \<Longrightarrow>
     ident \<in> set (subtree_ids ident f) \<and>
     ident \<notin> set (ids (handleDeleteNode ident f)) \<and>
     set (ids (handleDeleteNode ident f)) \<inter> set (subtree_ids ident f) = {} \<and>
     rows None (handleDeleteNode ident f)
       = filter (\<lambda>r. row_id r \<notin> set (subtree_ids ident f)) (rows None f)"
  by (auto simp: handleDeleteNode_def subtree_ids_self rows_delete ids_delete)

theorem delete_removes_subtree_witness:
  "distinct (ids [OutlineNode ''a'' ''x'' 1
       [OutlineNode ''b'' ''y'' 2 [OutlineNode ''c'' ''z'' 3 []], OutlineNode ''d'' ''w'' 2 []],
     OutlineNode ''e'' ''v'' 1 []]) \<and>
   ''b'' \<in> set (ids [OutlineNode ''a'' ''x'' 1
       [OutlineNode ''b'' ''y'' 2 [OutlineNode ''c'' ''z'' 3 []], OutlineNode ''d'' ''w'' 2 []],
     OutlineNode ''e'' ''v'' 1 []]) \<and>
   subtree_ids ''b'' [OutlineNode ''a'' ''x'' 1
       [OutlineNode ''b'' ''y'' 2 [OutlineNode ''c'' ''z'' 3 []], OutlineNode ''d'' ''w'' 2 []],
     OutlineNode ''e'' ''v'' 1 []] = [''b'', ''c''] \<and>
   rows None (handleDeleteNode ''b'' [OutlineNode ''a'' ''x'' 1
       [OutlineNode ''b'' ''y'' 2 [OutlineNode ''c'' ''z'' 3 []], OutlineNode ''d'' ''w'' 2 []],
     OutlineNode ''e'' ''v'' 1 []])
     = [(None, ''a'', ''x'', 1), (Some ''a'', ''d'', ''w'', 2), (None, ''e'', ''v'', 1)]"
proof -
  let ?F = "[OutlineNode ''a'' ''x'' 1
       [OutlineNode ''b'' ''y'' 2 [OutlineNode ''c'' ''z'' 3 []], OutlineNode ''d'' ''w'' 2 []],
     OutlineNode ''e'' ''v'' 1 []]"
  have h1: "distinct (ids ?F)" by simp
  have h2: "''b'' \<in> set (ids ?F)" by simp
  have s: "subtree_ids ''b'' ?F = [''b'', ''c'']" by (simp add: subtree_ids_def)
  show ?thesis
    using h1 h2 s delete_removes_subtree [OF h1 h2] by (simp add: row_id_def)
qed

text \<open>
  C5. In a forest with unique ids that contains the anchor id, insertSibling draws
  exactly one id and inserts exactly one node, with the drawn id, the default title,
  the level of the anchor and no children, right after the anchor in the sibling list
  that holds the anchor, at whatever depth; everything else is unchanged. For a
  top-level list of "a" and "b", both of level 1, insertSibling with "a" gives three
  top-level nodes, the new one at index 1 with level 1.
\<close>

theorem insert_sibling_after_anchor:
  "(distinct (ids f) \<and> anchorId \<in> set (ids f) \<longrightarrow>
      (\<exists>f'. handleAddSibling draws anchorId f k = (f', Suc k) \<and>
            sibling_inserted anchorId (draws k) f f')) \<and>
   handleAddSibling draws ''a'' [OutlineNode ''a'' ta 1 ca, OutlineNode ''b'' tb 1 cb] k
     = ([OutlineNode ''a'' ta 1 ca, OutlineNode (draws k) newTitle 1 [],
         OutlineNode ''b'' tb 1 cb], Suc k)"
proof -
  have "handleAddSibling draws ''a'' ([] @ OutlineNode ''a'' ta 1 ca # [OutlineNode ''b'' tb 1 cb]) k
     = ([] @ OutlineNode ''a'' ta 1 ca # OutlineNode (draws k) newTitle
          (level (OutlineNode ''a'' ta 1 ca)) [] # [OutlineNode ''b'' tb 1 cb], Suc k)"
    unfolding handleAddSibling_def by (rule addSibling_found) simp_all
  then show ?thesis
    using addSibling_present[of f anchorId draws k] by (simp add: handleAddSibling_def)
qed

theorem insert_sibling_after_anchor_witness:
  "distinct (ids [OutlineNode ''a'' ''x'' 1
       [OutlineNode ''b'' ''y'' 2 [], OutlineNode ''d'' ''w'' 2 []]]) \<and>
   ''b'' \<in> set (ids [OutlineNode ''a'' ''x'' 1
       [OutlineNode ''b'' ''y'' 2 [], OutlineNode ''d'' ''w'' 2 []]]) \<and>
   handleAddSibling draws_half ''b'' [OutlineNode ''a'' ''x'' 1
       [OutlineNode ''b'' ''y'' 2 [], OutlineNode ''d'' ''w'' 2 []]] 0
     = ([OutlineNode ''a'' ''x'' 1
          [OutlineNode ''b'' ''y'' 2 [], OutlineNode ''i'' newTitle 2 [],
           OutlineNode ''d'' ''w'' 2 []]], 1) \<and>
   sibling_inserted ''b'' ''i''
     [OutlineNode ''a'' ''x'' 1 [OutlineNode ''b'' ''y'' 2 [], OutlineNode ''d'' ''w'' 2 []]]
     [OutlineNode ''a'' ''x'' 1
        [OutlineNode ''b'' ''y'' 2 [], OutlineNode ''i'' newTitle 2 [],
         OutlineNode ''d'' ''w'' 2 []]]"
proof -
  let ?F = "[OutlineNode ''a'' ''x'' 1
       [OutlineNode ''b'' ''y'' 2 [], OutlineNode ''d'' ''w'' 2 []]]"
  have h: "distinct (ids ?F) \<and> ''b'' \<in> set (ids ?F)" by simp
  have e: "handleAddSibling draws_half ''b'' ?F 0
     = ([OutlineNode ''a'' ''x'' 1
          [OutlineNode ''b'' ''y'' 2 [], OutlineNode ''i'' newTitle 2 [],
           OutlineNode ''d'' ''w'' 2 []]], 1)"
    by (simp add: handleAddSibling_def addSiblingRecursive.simps Let_def splice_in_def
        draws_half_def)
  show ?thesis
    using h e insert_sibling_after_anchor [of ?F "''b''" draws_half 0] by (simp add: draws_half_def)
qed

text \<open>
  C6 (as amended). In a forest with unique ids that contains the parent id, where
  the level \<open>l\<close> of the parent is such that \<open>l + 1\<close> has a magnitude of at most
  \<open>2 ^ 53\<close>, insertChild draws exactly one id and appends exactly one node, with the
  drawn id, the default title, no children and the level that the parent has at this
  moment plus one, at the end of the children of the parent; the existing children,
  their order and everything else are unchanged. A parent "p" of level 2 without
  children gets exactly one child, of level 3.
\<close>

theorem insert_child_appends:
  "(distinct (ids f) \<and> find_node parentId f = Some parent \<and>
    \<bar>level parent + 1\<bar> \<le> 2 ^ 53 \<longrightarrow>
      (\<exists>f'. handleAddChild draws parentId f k = (f', Suc k) \<and>
            child_appended parentId (draws k) f f')) \<and>
   handleAddChild draws ''p'' [OutlineNode ''p'' t 2 []] k
     = ([OutlineNode ''p'' t 2 [OutlineNode (draws k) newTitle 3 []]], Suc k)"
  using addRecursive_present[of f parentId parent draws k]
  by (simp add: handleAddChild_def js_add_exact)

theorem insert_child_appends_witness:
  "distinct (ids [OutlineNode ''a'' ''x'' 1
       [OutlineNode ''b'' ''y'' 5 [OutlineNode ''c'' ''z'' 3 []], OutlineNode ''d'' ''w'' 2 []]]) \<and>
   find_node ''b'' [OutlineNode ''a'' ''x'' 1
       [OutlineNode ''b'' ''y'' 5 [OutlineNode ''c'' ''z'' 3 []], OutlineNode ''d'' ''w'' 2 []]]
     = Some (OutlineNode ''b'' ''y'' 5 [OutlineNode ''c'' ''z'' 3 []]) \<and>
   \<bar>level (OutlineNode ''b'' ''y'' 5 [OutlineNode ''c'' ''z'' 3 []]) + 1\<bar> \<le> 2 ^ 53 \<and>
   handleAddChild draws_half ''b'' [OutlineNode ''a'' ''x'' 1
       [OutlineNode ''b'' ''y'' 5 [OutlineNode ''c'' ''z'' 3 []], OutlineNode ''d'' ''w'' 2 []]] 0
     = ([OutlineNode ''a'' ''x'' 1
          [OutlineNode ''b'' ''y'' 5 [OutlineNode ''c'' ''z'' 3 [], OutlineNode ''i'' newTitle 6 []],
           OutlineNode ''d'' ''w'' 2 []]], 1) \<and>
   child_appended ''b'' ''i''
     [OutlineNode ''a'' ''x'' 1
       [OutlineNode ''b'' ''y'' 5 [OutlineNode ''c'' ''z'' 3 []], OutlineNode ''d'' ''w'' 2 []]]
     [OutlineNode ''a'' ''x'' 1
          [OutlineNode ''b'' ''y'' 5 [OutlineNode ''c'' ''z'' 3 [], OutlineNode ''i'' newTitle 6 []],
           OutlineNode ''d'' ''w'' 2 []]]"
proof -
  let ?F = "[OutlineNode ''a'' ''x'' 1
       [OutlineNode ''b'' ''y'' 5 [OutlineNode ''c'' ''z'' 3 []], OutlineNode ''d'' ''w'' 2 []]]"
  let ?P = "OutlineNode ''b'' ''y'' 5 [OutlineNode ''c'' ''z'' 3 []]"
  have h: "distinct (ids ?F) \<and> find_node ''b'' ?F = Some ?P \<and> \<bar>level ?P + 1\<bar> \<le> 2 ^ 53"
    by simp
  have e: "handleAddChild draws_half ''b'' ?F 0
     = ([OutlineNode ''a'' ''x'' 1
          [OutlineNode ''b'' ''y'' 5 [OutlineNode ''c'' ''z'' 3 [], OutlineNode ''i'' newTitle 6 []],
           OutlineNode ''d'' ''w'' 2 []]], 1)"
    by (simp add: handleAddChild_def draws_half_def js_add_exact)
  show ?thesis
    using h e insert_child_appends [of ?F "''b''" ?P draws_half 0] by (simp add: draws_half_def)
qed

text \<open>
  C6 as stated fails, without the bound: under a parent "p" of level \<open>2 ^ 53\<close> the
  new child gets the level \<open>2 ^ 53\<close> and not \<open>2 ^ 53 + 1\<close>, since
  \<^verbatim>\<open>9007199254740992 + 1\<close> is \<^verbatim>\<open>9007199254740992\<close> in doubles.
\<close>

theorem insert_child_level_counterexample:
  "distinct (ids [OutlineNode ''p'' ''x'' 9007199254740992 []]) \<and>
   ''p'' \<in> set (ids [OutlineNode ''p'' ''x'' 9007199254740992 []]) \<and>
   handleAddChild draws_half ''p'' [OutlineNode ''p'' ''x'' 9007199254740992 []] 0
     = ([OutlineNode ''p'' ''x'' 9007199254740992
           [OutlineNode ''i'' newTitle 9007199254740992 []]], 1) \<and>
   \<not> child_appended ''p'' ''i'' [OutlineNode ''p'' ''x'' 9007199254740992 []]
       [OutlineNode ''p'' ''x'' 9007199254740992
           [OutlineNode ''i'' newTitle 9007199254740992 []]]"
proof -
  have r: "js_add 9007199254740992 1 = 9007199254740992"
    by (simp add: js_add_def round_double_def bitlen.simps Let_def)
  have n: "\<not> child_appended ''p'' ''i'' [] ys" for ys
    by (auto elim: child_appended.cases)
  have "\<not> child_appended ''p'' ''i'' [OutlineNode ''p'' ''x'' 9007199254740992 []]
       [OutlineNode ''p'' ''x'' 9007199254740992
           [OutlineNode ''i'' newTitle 9007199254740992 []]]"
    using n by (auto elim: child_appended.cases)
  then show ?thesis
    using r by (simp add: handleAddChild_def draws_half_def)
qed

text \<open>
  C7. In a forest with unique ids that contains the id, rename replaces the title of
  the node with this id and nothing else: its level and its children, and the ids,
  titles, levels, children and order of all other nodes are unchanged.
\<close>

theorem rename_changes_one_title:
  "distinct (ids f) \<Longrightarrow> ident \<in> set (ids f) \<Longrightarrow>
     title_replaced ident newT f (rename ident newT f)"
  by (simp add: rename_def handleUpdateNode_def rename_present)

theorem rename_changes_one_title_witness:
  "distinct (ids [OutlineNode ''a'' ''x'' 1
       [OutlineNode ''b'' ''y'' 2 [OutlineNode ''c'' ''z'' 3 []], OutlineNode ''d'' ''w'' 2 []]]) \<and>
   ''b'' \<in> set (ids [OutlineNode ''a'' ''x'' 1
       [OutlineNode ''b'' ''y'' 2 [OutlineNode ''c'' ''z'' 3 []], OutlineNode ''d'' ''w'' 2 []]]) \<and>
   rename ''b'' ''new'' [OutlineNode ''a'' ''x'' 1
       [OutlineNode ''b'' ''y'' 2 [OutlineNode ''c'' ''z'' 3 []], OutlineNode ''d'' ''w'' 2 []]]
     = [OutlineNode ''a'' ''x'' 1
       [OutlineNode ''b'' ''new'' 2 [OutlineNode ''c'' ''z'' 3 []], OutlineNode ''d'' ''w'' 2 []]] \<and>
   title_replaced ''b'' ''new''
     [OutlineNode ''a'' ''x'' 1
       [OutlineNode ''b'' ''y'' 2 [OutlineNode ''c'' ''z'' 3 []], OutlineNode ''d'' ''w'' 2 []]]
     [OutlineNode ''a'' ''x'' 1
       [OutlineNode ''b'' ''new'' 2 [OutlineNode ''c'' ''z'' 3 []], OutlineNode ''d'' ''w'' 2 []]]"
proof -
  let ?F = "[OutlineNode ''a'' ''x'' 1
       [OutlineNode ''b'' ''y'' 2 [OutlineNode ''c'' ''z'' 3 []], OutlineNode ''d'' ''w'' 2 []]]"
  have h1: "distinct (ids ?F)" by simp
  have h2: "''b'' \<in> set (ids ?F)" by simp
  have e: "rename ''b'' ''new'' ?F = [OutlineNode ''a'' ''x'' 1
       [OutlineNode ''b'' ''new'' 2 [OutlineNode ''c'' ''z'' 3 []], OutlineNode ''d'' ''w'' 2 []]]"
    by (simp add: rename_def handleUpdateNode_def spread_def)
  show ?thesis
    using h1 h2 e rename_changes_one_title [OF h1 h2, of "''new''"] by simp
qed




text \<open>
  C10. In a forest with unique ids that contains the target id, insertChild and
  insertSibling each draw one id and add exactly one node: the number of nodes grows
  by one and the rows of the result are the rows of the input, each once more, and
  the row of the new node. AppendTopLevel always appends the new node at the end of
  the top-level list, so that the number of nodes grows by one.
\<close>

theorem insertion_adds_one_node:
  "(distinct (ids f) \<and> target \<in> set (ids f) \<longrightarrow>
      (\<exists>f' r. handleAddChild draws target f k = (f', Suc k) \<and>
              node_count f' = node_count f + 1 \<and> row_id r = draws k \<and>
              mset (rows None f') = add_mset r (mset (rows None f))) \<and>
      (\<exists>f' r. handleAddSibling draws target f k = (f', Suc k) \<and>
              node_count f' = node_count f + 1 \<and> row_id r = draws k \<and>
              mset (rows None f') = add_mset r (mset (rows None f)))) \<and>
   appendTopLevel draws f k = (f @ [OutlineNode (draws k) newTopTitle 1 []], Suc k) \<and>
   node_count (fst (appendTopLevel draws f k)) = node_count f + 1 \<and>
   rows None (fst (appendTopLevel draws f k))
     = rows None f @ [(None, draws k, newTopTitle, 1)]"
proof -
  have count: "node_count g = node_count f + 1"
    if "mset (rows None g) = add_mset r (mset (rows None f))" for g r
  proof -
    have "size (mset (rows None g)) = size (mset (rows None f)) + 1" using that by simp
    then have "length (map row_id (rows None g)) = length (map row_id (rows None f)) + 1"
      by simp
    then show ?thesis unfolding ids_rows node_count_def .
  qed
  have child: "\<exists>f' r. handleAddChild draws target f k = (f', Suc k) \<and>
              node_count f' = node_count f + 1 \<and> row_id r = draws k \<and>
              mset (rows None f') = add_mset r (mset (rows None f))"
    if h: "distinct (ids f)" "target \<in> set (ids f)"
  proof -
    from addRecursive_rows[OF h, of draws k None] obtain g l where
      g: "addRecursive draws target f k = (g, Suc k)"
      and r: "mset (rows None g)
                = add_mset (Some target, draws k, newTitle, l) (mset (rows None f))"
      by blast
    show ?thesis
      using g r count[OF r] by (auto simp: handleAddChild_def row_id_def)
  qed
  have sibling: "\<exists>f' r. handleAddSibling draws target f k = (f', Suc k) \<and>
              node_count f' = node_count f + 1 \<and> row_id r = draws k \<and>
              mset (rows None f') = add_mset r (mset (rows None f))"
    if h: "distinct (ids f)" "target \<in> set (ids f)"
  proof -
    from addSibling_present[OF h, of draws k] obtain g where
      g: "addSiblingRecursive draws target f k = (g, Suc k)"
         "sibling_inserted target (draws k) f g"
      by blast
    from sibling_inserted_rows[OF g(2), of None] obtain parent l where
      r: "mset (rows None g) = add_mset (parent, draws k, newTitle, l) (mset (rows None f))"
      by blast
    show ?thesis
      using g(1) r count[OF r] by (auto simp: handleAddSibling_def row_id_def)
  qed
  show ?thesis using child sibling by (simp add: appendTopLevel_def node_count_def)
qed

theorem insertion_adds_one_node_witness:
  "distinct (ids [OutlineNode ''a'' ''x'' 1 [OutlineNode ''b'' ''y'' 2 []]]) \<and>
   ''b'' \<in> set (ids [OutlineNode ''a'' ''x'' 1 [OutlineNode ''b'' ''y'' 2 []]]) \<and>
   handleAddChild draws_half ''b'' [OutlineNode ''a'' ''x'' 1 [OutlineNode ''b'' ''y'' 2 []]] 0
     = ([OutlineNode ''a'' ''x'' 1
          [OutlineNode ''b'' ''y'' 2 [OutlineNode ''i'' newTitle 3 []]]], 1) \<and>
   handleAddSibling draws_half ''b'' [OutlineNode ''a'' ''x'' 1 [OutlineNode ''b'' ''y'' 2 []]] 0
     = ([OutlineNode ''a'' ''x'' 1
          [OutlineNode ''b'' ''y'' 2 [], OutlineNode ''i'' newTitle 2 []]], 1) \<and>
   (\<exists>f' r. handleAddChild draws_half ''b''
              [OutlineNode ''a'' ''x'' 1 [OutlineNode ''b'' ''y'' 2 []]] 0 = (f', Suc 0) \<and>
      node_count f' = node_count [OutlineNode ''a'' ''x'' 1 [OutlineNode ''b'' ''y'' 2 []]] + 1 \<and>
      row_id r = draws_half 0 \<and>
      mset (rows None f')
        = add_mset r (mset (rows None [OutlineNode ''a'' ''x'' 1 [OutlineNode ''b'' ''y'' 2 []]]))) \<and>
   (\<exists>f' r. handleAddSibling draws_half ''b''
              [OutlineNode ''a'' ''x'' 1 [OutlineNode ''b'' ''y'' 2 []]] 0 = (f', Suc 0) \<and>
      node_count f' = node_count [OutlineNode ''a'' ''x'' 1 [OutlineNode ''b'' ''y'' 2 []]] + 1 \<and>
      row_id r = draws_half 0 \<and>
      mset (rows None f')
        = add_mset r (mset (rows None [OutlineNode ''a'' ''x'' 1 [OutlineNode ''b'' ''y'' 2 []]])))"
proof -
  let ?F = "[OutlineNode ''a'' ''x'' 1 [OutlineNode ''b'' ''y'' 2 []]]"
  have h: "distinct (ids ?F) \<and> ''b'' \<in> set (ids ?F)" by simp
  have c: "handleAddChild draws_half ''b'' ?F 0
     = ([OutlineNode ''a'' ''x'' 1
          [OutlineNode ''b'' ''y'' 2 [OutlineNode ''i'' newTitle 3 []]]], 1)"
    by (simp add: handleAddChild_def draws_half_def js_add_exact)
  have s: "handleAddSibling draws_half ''b'' ?F 0
     = ([OutlineNode ''a'' ''x'' 1
          [OutlineNode ''b'' ''y'' 2 [], OutlineNode ''i'' newTitle 2 []]], 1)"
    by (simp add: handleAddSibling_def addSiblingRecursive.simps Let_def splice_in_def
        draws_half_def)
  have t: "(distinct (ids ?F) \<and> ''b'' \<in> set (ids ?F) \<longrightarrow>
      (\<exists>f' r. handleAddChild draws_half ''b'' ?F 0 = (f', Suc 0) \<and>
              node_count f' = node_count ?F + 1 \<and> row_id r = draws_half 0 \<and>
              mset (rows None f') = add_mset r (mset (rows None ?F))) \<and>
      (\<exists>f' r. handleAddSibling draws_half ''b'' ?F 0 = (f', Suc 0) \<and>
              node_count f' = node_count ?F + 1 \<and> row_id r = draws_half 0 \<and>
              mset (rows None f') = add_mset r (mset (rows None ?F))))"
    using insertion_adds_one_node [of ?F "''b''" draws_half 0] by (rule conjunct1)
  show ?thesis
    using h c s t by (intro conjI) blast+
qed

end
